theory Spec2Isabelle
  imports Main
begin

section \<open>Characters and strings\<close>

text \<open>
  A Python \<open>str\<close> is a sequence of code points. The texts of this development are
  \<open>string\<close>s whose \<open>char\<close> number \<open>n\<close> stands for the code point U+00\<open>n\<close>: the Latin-1
  range U+0000 .. U+00FF, which holds every character of the program's vocabularies and
  patterns (\<open>CHR 0xE7\<close> is c-cedilla, \<open>CHR 0xAA\<close> the feminine ordinal, \<open>CHR 0xA0\<close> the
  no-break space). The character classes below are the ones of Python 3 on that range.
\<close>

definition cp :: "char \<Rightarrow> nat" where
  "cp c = of_char c"

definition in_range :: "nat \<Rightarrow> nat \<Rightarrow> char \<Rightarrow> bool" where
  "in_range lo hi c \<longleftrightarrow> lo \<le> cp c \<and> cp c \<le> hi"

text \<open>\<open>\d\<close> of \<open>re\<close> (a decimal digit); its complement is \<open>\D\<close>.\<close>

definition is_decimal :: "char \<Rightarrow> bool" where
  "is_decimal c \<longleftrightarrow> in_range 48 57 c"

text \<open>\<open>str.isdigit\<close> of one character: the decimal digits and the superscripts 1, 2, 3.\<close>

definition ch_isdigit :: "char \<Rightarrow> bool" where
  "ch_isdigit c \<longleftrightarrow> in_range 48 57 c \<or> in_range 178 179 c \<or> cp c = 185"

text \<open>\<open>\s\<close> of \<open>re\<close>, and the white space of \<open>str.strip()\<close> and \<open>str.split()\<close>.\<close>

definition is_space :: "char \<Rightarrow> bool" where
  "is_space c \<longleftrightarrow> in_range 9 13 c \<or> in_range 28 32 c \<or> cp c = 133 \<or> cp c = 160"

text \<open>\<open>\w\<close> of \<open>re\<close>: letters, digits and other numeric characters, and the underscore.\<close>

definition is_word :: "char \<Rightarrow> bool" where
  "is_word c \<longleftrightarrow>
     in_range 48 57 c \<or> in_range 65 90 c \<or> cp c = 95 \<or> in_range 97 122 c \<or>
     cp c = 170 \<or> in_range 178 179 c \<or> cp c = 181 \<or> in_range 185 186 c \<or>
     in_range 188 190 c \<or> in_range 192 214 c \<or> in_range 216 246 c \<or>
     in_range 248 255 c"

text \<open>\<open>str.isupper\<close> of one character: the upper-case letters.\<close>

definition ch_isupper :: "char \<Rightarrow> bool" where
  "ch_isupper c \<longleftrightarrow> in_range 65 90 c \<or> in_range 192 214 c \<or> in_range 216 222 c"

text \<open>
  \<open>str.lower\<close>: an upper-case letter moves 32 code points up, every other character
  stays. The upper-case letters have bit 5 clear, so adding 32 is setting that bit.
\<close>

definition ch_lower :: "char \<Rightarrow> char" where
  "ch_lower c =
     (if ch_isupper c
      then (case c of Char b0 b1 b2 b3 b4 b5 b6 b7 \<Rightarrow> Char b0 b1 b2 b3 b4 True b6 b7)
      else c)"

definition py_lower :: "string \<Rightarrow> string" where
  "py_lower s = map ch_lower s"

text \<open>\<open>s.strip()\<close> and \<open>s.strip(chars)\<close>.\<close>

definition strip_with :: "(char \<Rightarrow> bool) \<Rightarrow> string \<Rightarrow> string" where
  "strip_with p s = rev (dropWhile p (rev (dropWhile p s)))"

definition py_strip :: "string \<Rightarrow> string" where
  "py_strip s = strip_with is_space s"

text \<open>\<open>s.split()\<close>: the maximal runs of characters that are not white space.\<close>

fun split_from :: "string \<Rightarrow> string \<Rightarrow> string list" where
  "split_from w [] = (if w = [] then [] else [w])"
| "split_from w (c # cs) =
     (if is_space c
      then (if w = [] then split_from [] cs else w # split_from [] cs)
      else split_from (w @ [c]) cs)"

definition py_split :: "string \<Rightarrow> string list" where
  "py_split s = split_from [] s"

text \<open>\<open>sep.join(xs)\<close>.\<close>

fun py_join :: "string \<Rightarrow> string list \<Rightarrow> string" where
  "py_join sep [] = []"
| "py_join sep [x] = x"
| "py_join sep (x # y # ys) = x @ sep @ py_join sep (y # ys)"

text \<open>\<open>p in s\<close> on strings, and \<open>s.startswith(p)\<close>.\<close>

fun startswith :: "string \<Rightarrow> string \<Rightarrow> bool" where
  "startswith s [] = True"
| "startswith [] (p # ps) = False"
| "startswith (c # cs) (p # ps) = (c = p \<and> startswith cs ps)"

fun contains :: "string \<Rightarrow> string \<Rightarrow> bool" where
  "contains [] p = (p = [])"
| "contains (c # cs) p = (startswith (c # cs) p \<or> contains cs p)"

text \<open>
  The exceptions the modelled code could raise. \<open>UnsupportedPattern\<close> is not one of
  Python's: it marks a pattern string outside the fragment of the pattern syntax modelled
  here, where the model stops.
\<close>

datatype py_error = KeyError | IndexError | ValueError | UnsupportedPattern

section \<open>Vocabularies\<close>

definition PALAVRAS_PROIBIDAS :: "string set" where
  "PALAVRAS_PROIBIDAS = {
     (''associa'' @ [CHR 0xE7] @ [CHR 0xE3] @ ''o''),
     ''associados'',
     ''advogados'',
     ''sociedade'',
     ''servidores'',
     ''setor'',
     ''recursos'',
     ''coletiva'',
     (''magist'' @ [CHR 0xE9] @ ''rio''),
     (''telef'' @ [CHR 0xF4] @ ''nicas''),
     ''amostra'',
     ''total'',
     ''temperatura'',
     (''f'' @ [CHR 0xF3] @ ''sforo''),
     (''nitrog'' @ [CHR 0xEA] @ ''nio''),
     (''oxig'' @ [CHR 0xEA] @ ''nio''),
     ''validador'',
     (''s'' @ [CHR 0xF3] @ ''lidos''),
     ''totais'',
     ''gostaria'',
     ''gostar'',
     ''venho''
  }"

definition PREPOSICOES_NOME :: "string set" where
  "PREPOSICOES_NOME = {''da'', ''de'', ''do'', ''das'', ''dos'', ''e''}"

definition TITULOS :: "string set" where
  "TITULOS = {
     ''dr'', ''dr.'', ''dra'', ''dra.'',
     ''sr'', ''sr.'', ''sra'', ''sra.'',
     ''prof'', ''prof.'', (''prof'' @ [CHR 0xAA]), (''prof'' @ [CHR 0xAA] @ ''.''),
     ''doutor'', ''doutora'', (''doutor'' @ [CHR 0xAA]),
     (''doutor'' @ [CHR 0xAA] @ ''.''), ''doutor.'', ''doutora.''
  }"

definition SUFIXOS_LIXO :: "string set" where
  "SUFIXOS_LIXO = {''cpf'', ''cnh'', ''rg'', ''nome''}"

definition TRATAMENTOS_FORMAIS :: "string set" where
  "TRATAMENTOS_FORMAIS = {
     ''vossa senhoria'',
     (''vossa excel'' @ [CHR 0xEA] @ ''ncia''),
     (''vossa magnific'' @ [CHR 0xEA] @ ''ncia''),
     ''vossa alteza'',
     ''vossa santidade'',
     ''v. s.'',
     ''v.s.'',
     ''v. exa.'',
     ''v.exa.'',
     (''v. ex'' @ [CHR 0xAA]),
     (''v.ex'' @ [CHR 0xAA]),
     (''ilustr'' @ [CHR 0xED] @ ''ssimo senhor''),
     (''ilustr'' @ [CHR 0xED] @ ''ssima senhora''),
     (''excelent'' @ [CHR 0xED] @ ''ssimo senhor''),
     (''excelent'' @ [CHR 0xED] @ ''ssima senhora''),
     (''dign'' @ [CHR 0xED] @ ''ssimo senhor''),
     (''dign'' @ [CHR 0xED] @ ''ssima senhora''),
     (''merit'' @ [CHR 0xED] @ ''ssimo juiz''),
     (''merit'' @ [CHR 0xED] @ ''ssima ju'' @ [CHR 0xED] @ ''za''),
     (''senhor secret'' @ [CHR 0xE1] @ ''rio''),
     (''senhora secret'' @ [CHR 0xE1] @ ''ria''),
     ''senhor ministro'',
     ''senhora ministra'',
     ''senhor governador'',
     ''senhora governadora'',
     ''senhor prefeito'',
     ''senhora prefeita'',
     ''senhor presidente'',
     ''senhora presidente'',
     ''senhor juiz'',
     (''senhora ju'' @ [CHR 0xED] @ ''za''),
     ''senhor desembargador'',
     ''senhora desembargadora'',
     ''senhor promotor'',
     ''senhora promotora'',
     ''senhor procurador'',
     ''senhora procuradora'',
     ''ilustres senhores'',
     ''ilustres senhoras'',
     ''vossas senhorias'',
     (''vossas excel'' @ [CHR 0xEA] @ ''ncias'')
  }"

section \<open>Text normalization\<close>

text \<open>
  \<open>normalize\<close> of the source: \<open>text.strip()\<close>, then every no-break space (U+00A0)
  replaced by a space.
\<close>

definition normalize_text :: "string \<Rightarrow> string" where
  "normalize_text text = map (\<lambda>c. if c = CHR 0xA0 then CHR '' '' else c) (py_strip text)"

section \<open>Name cleaning\<close>

text \<open>
  \<open>limpar_sufixos\<close>: the \<open>while\<close> loop pops the last token as long as there is one and
  its lower-case form, stripped of colons, is a noise suffix.
\<close>

definition sufixo_lixo :: "string \<Rightarrow> bool" where
  "sufixo_lixo t \<longleftrightarrow> strip_with (\<lambda>c. c = CHR '':'') (py_lower t) \<in> SUFIXOS_LIXO"

definition limpar_sufixos :: "string \<Rightarrow> string" where
  "limpar_sufixos nome = py_join '' '' (rev (dropWhile sufixo_lixo (rev (py_split nome))))"

definition limpar_titulos :: "string \<Rightarrow> string" where
  "limpar_titulos nome = py_join '' '' (filter (\<lambda>t. py_lower t \<notin> TITULOS) (py_split nome))"

section \<open>Name validation\<close>

text \<open>
  The \<open>for tok in tokens\<close> loop of \<open>nome_valido\<close>. \<open>tok[0]\<close> raises \<open>IndexError\<close> on an
  empty token.
\<close>

fun tokens_validos :: "string list \<Rightarrow> py_error + bool" where
  "tokens_validos [] = Inr True"
| "tokens_validos (tok # toks) =
     (let tok_lower = py_lower tok in
      if tok_lower \<in> PREPOSICOES_NOME then tokens_validos toks
      else if tok_lower \<in> PALAVRAS_PROIBIDAS then Inr False
      else (case tok of
              [] \<Rightarrow> Inl IndexError
            | c # _ \<Rightarrow> if \<not> ch_isupper c then Inr False else tokens_validos toks))"

definition nome_valido :: "string \<Rightarrow> py_error + bool" where
  "nome_valido nome =
     (let tokens = py_split nome in
      if length tokens < 2 \<or> length tokens > 7 then Inr False
      else if py_lower (hd tokens) \<in> {''nossa'', ''nosso'', ''suas'', ''seus''} then Inr False
      else if hd tokens = last tokens then Inr False
      else tokens_validos tokens)"

section \<open>The PII mapping, conflict resolution and classification\<close>

text \<open>The mapping is a Python \<open>dict\<close> from field names to lists of strings.\<close>

type_synonym pii = "string \<rightharpoonup> string list"

text \<open>\<open>pii.get(campo, [])\<close>.\<close>

definition get_campo :: "pii \<Rightarrow> string \<Rightarrow> string list" where
  "get_campo pii campo = (case pii campo of None \<Rightarrow> [] | Some vs \<Rightarrow> vs)"

text \<open>
  The inner loop of \<open>resolver_conflitos\<close>: it walks the values of one field, keeps a value
  that is not in \<open>usados\<close> yet and adds it to \<open>usados\<close>. It returns \<open>filtrados\<close> and the
  new \<open>usados\<close>.
\<close>

fun filtrar :: "string set \<Rightarrow> string list \<Rightarrow> string list \<times> string set" where
  "filtrar usados [] = ([], usados)"
| "filtrar usados (v # vs) =
     (if v \<notin> usados
      then (case filtrar (insert v usados) vs of (filtrados, usados') \<Rightarrow> (v # filtrados, usados'))
      else filtrar usados vs)"

text \<open>The outer loop, over the fields in their fixed order.\<close>

fun resolver_campos :: "string list \<Rightarrow> string set \<Rightarrow> pii \<Rightarrow> pii" where
  "resolver_campos [] usados pii = pii"
| "resolver_campos (campo # campos) usados pii =
     (case filtrar usados (get_campo pii campo) of
        (filtrados, usados') \<Rightarrow> resolver_campos campos usados' (pii(campo \<mapsto> filtrados)))"

definition CAMPOS_CONFLITO :: "string list" where
  "CAMPOS_CONFLITO = [''cpf'', ''rg'', ''telefone'', ''endereco'']"

definition resolver_conflitos :: "pii \<Rightarrow> pii" where
  "resolver_conflitos pii = resolver_campos CAMPOS_CONFLITO {} pii"

definition PII_FORTE :: "string set" where
  "PII_FORTE = {''cpf'', ''rg'', ''endereco'', ''email'', ''telefone'', ''nome''}"

definition NAO_PUBLICO :: string where
  "NAO_PUBLICO = ''N'' @ [CHR 0xC3] @ ''O P'' @ [CHR 0xDA] @ ''BLICO''"

definition PUBLICO :: string where
  "PUBLICO = ''P'' @ [CHR 0xDA] @ ''BLICO''"

text \<open>
  \<open>any(pii[k] for k in PII_FORTE)\<close>: Python walks the set in an order of its own, given
  here as the list \<open>ordem\<close>; it stops at the first non-empty list, and \<open>pii[k]\<close> raises
  \<open>KeyError\<close> on a missing key.
\<close>

fun any_campo :: "string list \<Rightarrow> pii \<Rightarrow> py_error + bool" where
  "any_campo [] pii = Inr False"
| "any_campo (k # ks) pii =
     (case pii k of
        None \<Rightarrow> Inl KeyError
      | Some vs \<Rightarrow> if vs \<noteq> [] then Inr True else any_campo ks pii)"

definition classificar_pedido :: "string list \<Rightarrow> pii \<Rightarrow> py_error + string" where
  "classificar_pedido ordem pii =
     (case any_campo ordem pii of
        Inl e \<Rightarrow> Inl e
      | Inr b \<Rightarrow> Inr (if b then NAO_PUBLICO else PUBLICO))"

section \<open>Regular expressions\<close>

text \<open>
  The patterns of the program are values of \<open>regex\<close>, and \<open>rmatch\<close> is the backtracking
  matcher of Python's \<open>re\<close>: from a position it returns every way the pattern can match
  there, in the order the engine tries them (the left alternative first, a greedy
  repetition from its longest run down), so the engine's match is the head of the list.
  A cursor holds the character before the position (for \<open>\b\<close>), the text from the
  position on, and the text of capture group 1 once it has matched.
\<close>

datatype cursor = Cursor (before: "char option") (rest: string) (group1: "string option")

datatype regex =
    Eps
  | Chr char
  | ChrI char
  | Dot
  | Rep "char \<Rightarrow> bool" nat "nat option"
  | Seq regex regex
  | Alt regex regex
  | Opt regex
  | Grp regex
  | WordB

text \<open>
  \<open>Chr a\<close> is the literal \<open>a\<close>, \<open>ChrI a\<close> the literal under \<open>re.IGNORECASE\<close>, \<open>Dot\<close> is
  \<open>.\<close> (any character but a newline), \<open>Rep cls m (Some n)\<close> is \<open>[cls]{m,n}\<close> and
  \<open>Rep cls m None\<close> is \<open>[cls]{m,}\<close>, \<open>Opt r\<close> is \<open>r?\<close>, \<open>Grp r\<close> is the capturing group
  \<open>(r)\<close>, \<open>WordB\<close> is \<open>\b\<close>.
\<close>

fun advance :: "nat \<Rightarrow> cursor \<Rightarrow> cursor" where
  "advance 0 cur = cur"
| "advance (Suc n) (Cursor p [] g) = Cursor p [] g"
| "advance (Suc n) (Cursor p (c # cs) g) = advance n (Cursor (Some c) cs g)"

definition word_before :: "cursor \<Rightarrow> bool" where
  "word_before cur = (case before cur of None \<Rightarrow> False | Some c \<Rightarrow> is_word c)"

definition word_after :: "cursor \<Rightarrow> bool" where
  "word_after cur = (case rest cur of [] \<Rightarrow> False | c # _ \<Rightarrow> is_word c)"

definition one_char :: "(char \<Rightarrow> bool) \<Rightarrow> cursor \<Rightarrow> cursor list" where
  "one_char cls cur =
     (case rest cur of [] \<Rightarrow> [] | c # _ \<Rightarrow> if cls c then [advance 1 cur] else [])"

text \<open>The text between two cursors, the second one further in the same text.\<close>

definition consumed :: "cursor \<Rightarrow> cursor \<Rightarrow> string" where
  "consumed cur cur' = take (length (rest cur) - length (rest cur')) (rest cur)"

fun rmatch :: "regex \<Rightarrow> cursor \<Rightarrow> cursor list" where
  "rmatch Eps cur = [cur]"
| "rmatch (Chr a) cur = one_char (\<lambda>c. c = a) cur"
| "rmatch (ChrI a) cur = one_char (\<lambda>c. ch_lower c = ch_lower a) cur"
| "rmatch Dot cur = one_char (\<lambda>c. c \<noteq> CHR 0x0A) cur"
| "rmatch (Rep cls m n) cur =
     (let run = length (takeWhile cls (rest cur));
          k = (case n of None \<Rightarrow> run | Some n \<Rightarrow> min run n)
      in map (\<lambda>j. advance j cur) (rev [m..<Suc k]))"
| "rmatch (Seq r1 r2) cur = concat (map (rmatch r2) (rmatch r1 cur))"
| "rmatch (Alt r1 r2) cur = rmatch r1 cur @ rmatch r2 cur"
| "rmatch (Opt r) cur = rmatch r cur @ [cur]"
| "rmatch (Grp r) cur =
     map (\<lambda>cur'. Cursor (before cur') (rest cur') (Some (consumed cur cur'))) (rmatch r cur)"
| "rmatch WordB cur = (if word_before cur \<noteq> word_after cur then [cur] else [])"

fun has_group :: "regex \<Rightarrow> bool" where
  "has_group (Grp r) = True"
| "has_group (Seq r1 r2) = (has_group r1 \<or> has_group r2)"
| "has_group (Alt r1 r2) = (has_group r1 \<or> has_group r2)"
| "has_group (Opt r) = has_group r"
| "has_group r = False"

text \<open>
  A match object: \<open>m.start()\<close>, \<open>m.group(0)\<close> and \<open>m.group(1)\<close>.
\<close>

datatype found = Found (start: nat) (whole: string) (grp1: "string option")

text \<open>
  \<open>re.finditer\<close>: the scan for non-overlapping matches, left to right. \<open>skip\<close> counts the
  characters still covered by the last match, \<open>pos\<close> is the index of the position and
  \<open>p\<close> the character before it. After a match of \<open>n > 0\<close> characters the next attempt is
  at its end. After an empty match the scan moves one character on (CPython first retries
  the same position for a non-empty match; no pattern of this program matches the empty
  string, see \<open>patterns_consume\<close> and \<open>finditer_nonempty\<close> below, so that rule is never
  exercised).
\<close>

fun scan :: "regex \<Rightarrow> nat \<Rightarrow> nat \<Rightarrow> char option \<Rightarrow> string \<Rightarrow> found list" where
  "scan r skip pos p [] =
     (if 0 < skip then []
      else (case rmatch r (Cursor p [] None) of
              [] \<Rightarrow> []
            | cur' # _ \<Rightarrow> [Found pos [] (group1 cur')]))"
| "scan r skip pos p (c # cs) =
     (if 0 < skip then scan r (skip - 1) (Suc pos) (Some c) cs
      else (case rmatch r (Cursor p (c # cs) None) of
              [] \<Rightarrow> scan r 0 (Suc pos) (Some c) cs
            | cur' # _ \<Rightarrow>
                (let w = consumed (Cursor p (c # cs) None) cur'
                 in Found pos w (group1 cur') # scan r (length w - 1) (Suc pos) (Some c) cs)))"

definition finditer :: "regex \<Rightarrow> string \<Rightarrow> found list" where
  "finditer r text = scan r 0 0 None text"

text \<open>
  \<open>pattern.findall(text)\<close>: the whole matches for a pattern without a group, the texts of
  group 1 for a pattern with one group (the empty string where the group took no part).
\<close>

definition findall :: "regex \<Rightarrow> string \<Rightarrow> string list" where
  "findall r text =
     map (\<lambda>m. if has_group r then (case grp1 m of None \<Rightarrow> [] | Some g \<Rightarrow> g) else whole m)
         (finditer r text)"

text \<open>Building patterns: a sequence, a choice, a literal word.\<close>

definition seq :: "regex list \<Rightarrow> regex" where
  "seq rs = foldr Seq rs Eps"

fun alts :: "regex \<Rightarrow> regex list \<Rightarrow> regex" where
  "alts r [] = r"
| "alts r (r' # rs) = Alt r (alts r' rs)"

definition lit :: "string \<Rightarrow> regex" where
  "lit s = seq (map Chr s)"

definition litI :: "string \<Rightarrow> regex" where
  "litI s = seq (map ChrI s)"

definition digits :: "nat \<Rightarrow> nat \<Rightarrow> regex" where
  "digits m n = Rep is_decimal m (Some n)"

definition ascii_letter :: "char \<Rightarrow> bool" where
  "ascii_letter c \<longleftrightarrow> in_range 65 90 c \<or> in_range 97 122 c"

section \<open>The patterns\<close>

text \<open>\<^verbatim>\<open>\b\d{3}\.?\d{3}\.?\d{3}-?\d{1,2}\b\<close>\<close>

definition CPF :: regex where
  "CPF = seq [WordB, digits 3 3, Opt (Chr CHR ''.''), digits 3 3, Opt (Chr CHR ''.''),
              digits 3 3, Opt (Chr CHR ''-''), digits 1 2, WordB]"

text \<open>\<^verbatim>\<open>\b\d{1,2}\.?\d{3}\.?\d{3}-?[0-9Xx]\b\<close>\<close>

definition RG :: regex where
  "RG = seq [WordB, digits 1 2, Opt (Chr CHR ''.''), digits 3 3, Opt (Chr CHR ''.''),
             digits 3 3, Opt (Chr CHR ''-''),
             Rep (\<lambda>c. in_range 48 57 c \<or> c = CHR ''X'' \<or> c = CHR ''x'') 1 (Some 1), WordB]"

text \<open>\<^verbatim>\<open>\b[A-Za-z0-9._%+-]+@[A-Za-z0-9.-]+\.[A-Za-z]{2,}\b\<close>\<close>

definition EMAIL :: regex where
  "EMAIL = seq [WordB,
                Rep (\<lambda>c. ascii_letter c \<or> in_range 48 57 c \<or> c \<in> set ''._%+-'') 1 None,
                Chr CHR ''@'',
                Rep (\<lambda>c. ascii_letter c \<or> in_range 48 57 c \<or> c \<in> set ''.-'') 1 None,
                Chr CHR ''.'',
                Rep ascii_letter 2 None, WordB]"

text \<open>\<^verbatim>\<open>\b(?:\+55\s?)?(?:\(?\d{2}\)?\s?)?9?\d{4}-?\d{4}\b\<close>\<close>

definition TELEFONE :: regex where
  "TELEFONE = seq [WordB,
                   Opt (seq [lit ''+55'', Rep is_space 0 (Some 1)]),
                   Opt (seq [Opt (Chr CHR ''(''), digits 2 2, Opt (Chr CHR '')''),
                             Rep is_space 0 (Some 1)]),
                   Opt (Chr CHR ''9''), digits 4 4, Opt (Chr CHR ''-''), digits 4 4, WordB]"

text \<open>
  \<^verbatim>\<open>\b(?:Rua|R\.|Avenida|Av\.?|Travessa|Tv\.?|Alameda|Estrada|Rodovia)\s+[A-Za-z\<close>\<open>U+00C0\<close>\<^verbatim>\<open>-\<close>\<open>U+00FF\<close>\<^verbatim>\<open>0-9\s]{3,}\<close>
  with \<open>re.IGNORECASE\<close>. On the Latin-1 range the flag adds no character to a class that
  holds both cases of every letter in it.
\<close>

definition LOGRADOURO :: regex where
  "LOGRADOURO =
     seq [WordB,
          alts (litI ''Rua'')
               [litI ''R.'', litI ''Avenida'', Seq (litI ''Av'') (Opt (ChrI CHR ''.'')),
                litI ''Travessa'', Seq (litI ''Tv'') (Opt (ChrI CHR ''.'')),
                litI ''Alameda'', litI ''Estrada'', litI ''Rodovia''],
          Rep is_space 1 None,
          Rep (\<lambda>c. ascii_letter c \<or> in_range 192 255 c \<or> in_range 48 57 c \<or> is_space c) 3 None]"

text \<open>
  \<^verbatim>\<open>\b(Qd\.?|Quadra|Lt\.?|Lote|Bloco|BLC|Conjunto|CJ)\s*[A-Za-z0-9\-]+\b\<close> with
  \<open>re.IGNORECASE\<close>. The keyword is a capturing group.
\<close>

definition QUADRA_LOTE :: regex where
  "QUADRA_LOTE =
     seq [WordB,
          Grp (alts (Seq (litI ''Qd'') (Opt (ChrI CHR ''.'')))
                    [litI ''Quadra'', Seq (litI ''Lt'') (Opt (ChrI CHR ''.'')),
                     litI ''Lote'', litI ''Bloco'', litI ''BLC'', litI ''Conjunto'',
                     litI ''CJ'']),
          Rep is_space 0 None,
          Rep (\<lambda>c. ascii_letter c \<or> in_range 48 57 c \<or> c = CHR ''-'') 1 None,
          WordB]"

text \<open>
  \<open>re.finditer(rg, text)\<close> compiles the string \<open>rg\<close> as a pattern. In a string without
  the special characters \<^verbatim>\<open>\ ^ $ * + ? { } [ ] | ( )\<close> every character stands for
  itself, except the dot, which stands for any character but a newline. A string with
  one of the special characters is outside this model (\<open>UnsupportedPattern\<close>): Python
  would compile most of them, with a meaning this function does not give. The program
  calls \<open>rg_valido\<close> on the candidates of the \<open>RG\<close> pattern only, and they are made of
  digits, dots, hyphens and the letter X (\<open>RG_candidate_plain\<close> below), so the pipeline
  never meets that case; a statement about \<open>rg_valido\<close> on other strings is not made.
\<close>

fun compile_plain :: "string \<Rightarrow> py_error + regex" where
  "compile_plain [] = Inr Eps"
| "compile_plain (c # cs) =
     (if c \<in> set (CHR 0x5C # ''^$*+?{}[]|()'') then Inl UnsupportedPattern
      else (case compile_plain cs of
              Inl e \<Rightarrow> Inl e
            | Inr r \<Rightarrow> Inr (Seq (if c = CHR ''.'' then Dot else Chr c) r)))"

section \<open>Validators\<close>

text \<open>\<open>list(set(xs))\<close>: the distinct elements, in an order Python does not specify.\<close>

definition list_set :: "string list \<Rightarrow> string list" where
  "list_set xs = remdups xs"

text \<open>\<open>re.sub(r"\D", "", s)\<close>.\<close>

definition so_digitos :: "string \<Rightarrow> string" where
  "so_digitos s = filter is_decimal s"

text \<open>
  \<open>int(s)\<close> on a string of decimal digits; \<open>ValueError\<close> on the empty string and on any
  other character (the sign, spaces and underscores that \<open>int\<close> accepts as well do not
  occur in a string of digits).
\<close>

definition digit_val :: "char \<Rightarrow> int" where
  "digit_val c = int (cp c) - 48"

definition py_int :: "string \<Rightarrow> py_error + int" where
  "py_int s =
     (if s = [] \<or> \<not> list_all is_decimal s then Inl ValueError
      else Inr (foldl (\<lambda>n c. 10 * n + digit_val c) 0 s))"

definition endereco_valido :: "string \<Rightarrow> bool" where
  "endereco_valido e =
     (let e_lower = py_lower e;
          tem_logradouro = list_ex (\<lambda>p. contains e_lower p)
                             [''rua'', ''avenida'', ''av'', ''quadra'', ''lote'', ''bloco''];
          tem_numero = list_ex ch_isdigit e
      in tem_logradouro \<and> tem_numero)"

definition telefone_valido :: "string \<Rightarrow> py_error + bool" where
  "telefone_valido tel =
     (let digits = so_digitos tel in
      if length digits \<noteq> 10 \<and> length digits \<noteq> 11 then Inr False
      else (case py_int (take 2 digits) of
              Inl e \<Rightarrow> Inl e
            | Inr ddd \<Rightarrow> Inr (11 \<le> ddd \<and> ddd \<le> 99)))"

text \<open>\<open>text[max(0, start - 15):start].lower()\<close>; the subtraction on \<open>nat\<close> stops at 0.\<close>

definition janela :: "string \<Rightarrow> nat \<Rightarrow> string" where
  "janela text st = py_lower (drop (st - 15) (take st text))"

definition tem_palavra_rg :: "string \<Rightarrow> bool" where
  "tem_palavra_rg j = list_ex (\<lambda>p. contains j p) [''rg'', ''registro geral'', ''identidade'']"

definition rg_valido :: "string \<Rightarrow> string \<Rightarrow> py_error + bool" where
  "rg_valido rg text =
     (let rg_norm = so_digitos rg in
      if \<not> (7 \<le> length rg_norm \<and> length rg_norm \<le> 9) then Inr False
      else (case compile_plain rg of
              Inl e \<Rightarrow> Inl e
            | Inr r \<Rightarrow> Inr (list_ex (\<lambda>m. tem_palavra_rg (janela text (start m)))
                                  (finditer r text))))"

definition cpf_formato_valido :: "string \<Rightarrow> bool" where
  "cpf_formato_valido cpf = (length (so_digitos cpf) = 11)"

section \<open>Extraction\<close>

text \<open>\<open>extract\<close> of the source (the name is a keyword of Isabelle).\<close>

definition extract_re :: "regex \<Rightarrow> string \<Rightarrow> string list" where
  "extract_re pat text = list_set (findall pat text)"

definition extract_endereco :: "string \<Rightarrow> string list" where
  "extract_endereco text =
     (let encontrados = findall LOGRADOURO text @ findall QUADRA_LOTE text
      in filter endereco_valido (list_set encontrados))"

text \<open>A list comprehension whose condition may raise.\<close>

fun filter_err :: "('a \<Rightarrow> py_error + bool) \<Rightarrow> 'a list \<Rightarrow> py_error + 'a list" where
  "filter_err f [] = Inr []"
| "filter_err f (x # xs) =
     (case f x of
        Inl e \<Rightarrow> Inl e
      | Inr b \<Rightarrow> (case filter_err f xs of
                   Inl e \<Rightarrow> Inl e
                 | Inr ys \<Rightarrow> Inr (if b then x # ys else ys)))"

definition extract_all :: "string \<Rightarrow> py_error + pii" where
  "extract_all text =
     (let cpf = filter cpf_formato_valido (extract_re CPF text) in
      case filter_err (\<lambda>r. rg_valido r text) (extract_re RG text) of
        Inl e \<Rightarrow> Inl e
      | Inr rg \<Rightarrow>
          (let email = extract_re EMAIL text in
           case filter_err telefone_valido (extract_re TELEFONE text) of
             Inl e \<Rightarrow> Inl e
           | Inr telefone \<Rightarrow>
               Inr [''cpf'' \<mapsto> cpf, ''rg'' \<mapsto> rg, ''email'' \<mapsto> email,
                    ''telefone'' \<mapsto> telefone, ''endereco'' \<mapsto> extract_endereco text]))"

section \<open>Name extraction\<close>

text \<open>
  The entity recognizer is outside the program: \<open>nlp\<close> is the loaded model, a function
  from the text to its entities, each with its text and its label. \<open>nomes\<close> is the set
  the loop fills, kept as a list without duplicates.
\<close>

type_synonym entity = "string \<times> string"

fun nomes_loop :: "entity list \<Rightarrow> string list \<Rightarrow> py_error + string list" where
  "nomes_loop [] nomes = Inr nomes"
| "nomes_loop ((ent_text, label) # ents) nomes =
     (if label \<noteq> ''PER'' then nomes_loop ents nomes
      else (let raw = py_strip ent_text; raw_norm = py_lower raw in
            if \<exists>t \<in> TRATAMENTOS_FORMAIS. startswith raw_norm t then nomes_loop ents nomes
            else (let clean = limpar_sufixos (limpar_titulos raw) in
                  case nome_valido clean of
                    Inl e \<Rightarrow> Inl e
                  | Inr ok \<Rightarrow> nomes_loop ents (if ok then List.insert clean nomes else nomes))))"

definition extract_names :: "(string \<Rightarrow> entity list) \<Rightarrow> string \<Rightarrow> py_error + string list" where
  "extract_names nlp text = nomes_loop (nlp text) []"

section \<open>Detection\<close>

definition detect_pii :: "(string \<Rightarrow> entity list) \<Rightarrow> string \<Rightarrow> py_error + pii" where
  "detect_pii nlp text0 =
     (let text = normalize_text text0 in
      case extract_all text of
        Inl e \<Rightarrow> Inl e
      | Inr pii \<Rightarrow>
          (let pii = resolver_conflitos pii in
           case extract_names nlp text of
             Inl e \<Rightarrow> Inl e
           | Inr nomes \<Rightarrow> Inr (pii(''nome'' \<mapsto> nomes))))"

section \<open>Notions used in the statements\<close>

text \<open>
  The four lists conflict resolution leaves: each field filtered against the values that
  the fields before it in the order hold.
\<close>

definition r_cpf :: "pii \<Rightarrow> string list" where
  "r_cpf pii = fst (filtrar {} (get_campo pii ''cpf''))"

definition r_rg :: "pii \<Rightarrow> string list" where
  "r_rg pii = fst (filtrar (set (get_campo pii ''cpf'')) (get_campo pii ''rg''))"

definition r_tel :: "pii \<Rightarrow> string list" where
  "r_tel pii =
     fst (filtrar (set (get_campo pii ''cpf'') \<union> set (get_campo pii ''rg''))
            (get_campo pii ''telefone''))"

definition r_end :: "pii \<Rightarrow> string list" where
  "r_end pii =
     fst (filtrar (set (get_campo pii ''cpf'') \<union> set (get_campo pii ''rg'') \<union>
                   set (get_campo pii ''telefone''))
            (get_campo pii ''endereco''))"

text \<open>
  The structural rule for names in the words of the specification: the bounds on the
  number of tokens, the first token, first against last, and for every token either a
  connector or a word that is not forbidden and begins with an upper-case letter.
\<close>

definition token_regra :: "string \<Rightarrow> bool" where
  "token_regra tok \<longleftrightarrow>
     py_lower tok \<in> PREPOSICOES_NOME \<or>
     (py_lower tok \<notin> PALAVRAS_PROIBIDAS \<and> (case tok of [] \<Rightarrow> False | c # _ \<Rightarrow> ch_isupper c))"

definition nome_regra :: "string \<Rightarrow> bool" where
  "nome_regra nome =
     (let tokens = py_split nome in
      2 \<le> length tokens \<and> length tokens \<le> 7 \<and>
      py_lower (hd tokens) \<notin> {''nossa'', ''nosso'', ''suas'', ''seus''} \<and>
      hd tokens \<noteq> last tokens \<and>
      (\<forall>tok \<in> set tokens. token_regra tok))"

text \<open>
  The phone rule in the words of the specification: 10 or 11 digits, and the number that
  the first two digits form between 11 and 99.
\<close>

definition telefone_regra :: "string \<Rightarrow> bool" where
  "telefone_regra tel =
     (let ds = so_digitos tel in
      (length ds = 10 \<or> length ds = 11) \<and>
      11 \<le> 10 * digit_val (ds ! 0) + digit_val (ds ! 1) \<and>
      10 * digit_val (ds ! 0) + digit_val (ds ! 1) \<le> 99)"

text \<open>The characters a pattern can consume.\<close>

fun alphabet :: "regex \<Rightarrow> char \<Rightarrow> bool" where
  "alphabet (Chr a) c = (c = a)"
| "alphabet (ChrI a) c = (ch_lower c = ch_lower a)"
| "alphabet Dot c = (c \<noteq> CHR 0x0A)"
| "alphabet (Rep cls m n) c = cls c"
| "alphabet (Seq r1 r2) c = (alphabet r1 c \<or> alphabet r2 c)"
| "alphabet (Alt r1 r2) c = (alphabet r1 c \<or> alphabet r2 c)"
| "alphabet (Opt r) c = alphabet r c"
| "alphabet (Grp r) c = alphabet r c"
| "alphabet r c = False"

text \<open>The least number of characters a match of a pattern consumes.\<close>

fun min_len :: "regex \<Rightarrow> nat" where
  "min_len (Chr a) = 1"
| "min_len (ChrI a) = 1"
| "min_len Dot = 1"
| "min_len (Rep cls m n) = m"
| "min_len (Seq r1 r2) = min_len r1 + min_len r2"
| "min_len (Alt r1 r2) = min (min_len r1) (min_len r2)"
| "min_len (Opt r) = 0"
| "min_len (Grp r) = min_len r"
| "min_len r = 0"

text \<open>The characters the text of capture group 1 can hold.\<close>

fun group_alphabet :: "regex \<Rightarrow> char \<Rightarrow> bool" where
  "group_alphabet (Grp r) c = alphabet r c"
| "group_alphabet (Seq r1 r2) c = (group_alphabet r1 c \<or> group_alphabet r2 c)"
| "group_alphabet (Alt r1 r2) c = (group_alphabet r1 c \<or> group_alphabet r2 c)"
| "group_alphabet (Opt r) c = group_alphabet r c"
| "group_alphabet r c = False"

text \<open>
  A text matched by a candidate compiled as a pattern: the same length, any character but
  a newline under a dot, the same character elsewhere.
\<close>

definition dot_match :: "string \<Rightarrow> string \<Rightarrow> bool" where
  "dot_match rg w = list_all2 (\<lambda>p c. if p = CHR ''.'' then c \<noteq> CHR 0x0A else c = p) rg w"

text \<open>
  The candidate occurs in the text at index \<open>st\<close>: every character of the candidate
  other than a dot is the character of the text at its place.
\<close>

definition ocorre :: "string \<Rightarrow> string \<Rightarrow> nat \<Rightarrow> bool" where
  "ocorre rg text st \<longleftrightarrow>
     st + length rg \<le> length text \<and>
     list_all2 (\<lambda>p c. p = CHR ''.'' \<or> c = p) rg (take (length rg) (drop st text))"

text \<open>
  What \<open>extract_all\<close> returns, with the validators that cannot raise on candidates
  replaced by their rules.
\<close>

definition pii_extraido :: "string \<Rightarrow> pii" where
  "pii_extraido text =
     [''cpf'' \<mapsto> filter cpf_formato_valido (extract_re CPF text),
      ''rg'' \<mapsto> filter (\<lambda>r. rg_valido r text = Inr True) (extract_re RG text),
      ''email'' \<mapsto> extract_re EMAIL text,
      ''telefone'' \<mapsto> filter telefone_regra (extract_re TELEFONE text),
      ''endereco'' \<mapsto> extract_endereco text]"

text \<open>A recognizer that finds no entity, and the list a result binds a field to.\<close>

definition sem_entidades :: "string \<Rightarrow> entity list" where
  "sem_entidades text = []"

definition lista :: "py_error + pii \<Rightarrow> string \<Rightarrow> py_error + string list" where
  "lista res k =
     (case res of
        Inl e \<Rightarrow> Inl e
      | Inr m \<Rightarrow> (case m k of None \<Rightarrow> Inl KeyError | Some vs \<Rightarrow> Inr vs))"




section \<open>Properties of conflict resolution\<close>

lemma filtrar_snd: "snd (filtrar U vs) = U \<union> set vs"
  by (induction vs arbitrary: U) (auto simp: case_prod_beta)

lemma filtrar_set: "set (fst (filtrar U vs)) = set vs - U"
  by (induction vs arbitrary: U) (auto simp: case_prod_beta)

lemma filtrar_distinct: "distinct (fst (filtrar U vs))"
  by (induction vs arbitrary: U) (auto simp: case_prod_beta filtrar_set)

lemma filtrar_fixed:
  "distinct vs \<Longrightarrow> set vs \<inter> U = {} \<Longrightarrow> fst (filtrar U vs) = vs"
  by (induction vs arbitrary: U) (auto simp: case_prod_beta)

lemma get_campo_upd:
  "get_campo (pii(k \<mapsto> vs)) k' = (if k' = k then vs else get_campo pii k')"
  by (simp add: get_campo_def)

lemma resolver_conflitos_eq:
  "resolver_conflitos pii =
     pii(''cpf'' \<mapsto> r_cpf pii, ''rg'' \<mapsto> r_rg pii, ''telefone'' \<mapsto> r_tel pii,
         ''endereco'' \<mapsto> r_end pii)"
  unfolding resolver_conflitos_def CAMPOS_CONFLITO_def r_cpf_def r_rg_def r_tel_def r_end_def
  by (simp add: case_prod_beta filtrar_snd get_campo_upd)

lemma set_r:
  "set (r_cpf pii) = set (get_campo pii ''cpf'')"
  "set (r_rg pii) = set (get_campo pii ''rg'') - set (get_campo pii ''cpf'')"
  "set (r_tel pii) = set (get_campo pii ''telefone'') -
       (set (get_campo pii ''cpf'') \<union> set (get_campo pii ''rg''))"
  "set (r_end pii) = set (get_campo pii ''endereco'') -
       (set (get_campo pii ''cpf'') \<union> set (get_campo pii ''rg'') \<union>
        set (get_campo pii ''telefone''))"
  by (simp_all add: r_cpf_def r_rg_def r_tel_def r_end_def filtrar_set)

lemma get_resolver:
  "get_campo (resolver_conflitos pii) ''cpf'' = r_cpf pii"
  "get_campo (resolver_conflitos pii) ''rg'' = r_rg pii"
  "get_campo (resolver_conflitos pii) ''telefone'' = r_tel pii"
  "get_campo (resolver_conflitos pii) ''endereco'' = r_end pii"
  by (simp_all add: resolver_conflitos_eq get_campo_upd)

lemma resolver_other_keys:
  "k \<notin> set CAMPOS_CONFLITO \<Longrightarrow> resolver_conflitos pii k = pii k"
  by (simp add: resolver_conflitos_eq CAMPOS_CONFLITO_def)

text \<open>
  Claim C3. After conflict resolution no value is in two of the four contested lists
  (cpf, rg, telefone, endereco): each list holds exactly the values of its field that no
  field earlier in that order held. The email and nome entries are what they were.
\<close>

theorem resolver_conflitos_first_claim_wins:
  "(let r = resolver_conflitos pii;
        cpf = set (get_campo pii ''cpf''); rg = set (get_campo pii ''rg'');
        tel = set (get_campo pii ''telefone''); ende = set (get_campo pii ''endereco'');
        cpf' = set (get_campo r ''cpf''); rg' = set (get_campo r ''rg'');
        tel' = set (get_campo r ''telefone''); ende' = set (get_campo r ''endereco'')
    in cpf' \<inter> rg' = {} \<and> cpf' \<inter> tel' = {} \<and> cpf' \<inter> ende' = {} \<and>
       rg' \<inter> tel' = {} \<and> rg' \<inter> ende' = {} \<and> tel' \<inter> ende' = {} \<and>
       cpf' = cpf \<and> rg' = rg - cpf \<and> tel' = tel - (cpf \<union> rg) \<and>
       ende' = ende - (cpf \<union> rg \<union> tel) \<and>
       r ''email'' = pii ''email'' \<and> r ''nome'' = pii ''nome'')"
proof -
  have "resolver_conflitos pii ''email'' = pii ''email''"
       "resolver_conflitos pii ''nome'' = pii ''nome''"
    by (simp_all add: resolver_conflitos_eq)
  then show ?thesis
    unfolding Let_def get_resolver set_r by blast
qed

text \<open>
  Claim C4. Conflict resolution is idempotent: resolving a resolved mapping changes
  nothing.
\<close>

theorem resolver_conflitos_idempotent:
  "resolver_conflitos (resolver_conflitos pii) = resolver_conflitos pii"
proof -
  let ?r = "resolver_conflitos pii"
  have 1: "r_cpf ?r = r_cpf pii"
    unfolding r_cpf_def[of ?r] get_resolver
    by (rule filtrar_fixed) (simp_all add: r_cpf_def filtrar_distinct)
  have 2: "r_rg ?r = r_rg pii"
    unfolding r_rg_def[of ?r] get_resolver
    by (rule filtrar_fixed) (auto simp: r_cpf_def r_rg_def filtrar_distinct filtrar_set)
  have 3: "r_tel ?r = r_tel pii"
    unfolding r_tel_def[of ?r] get_resolver
    by (rule filtrar_fixed)
       (auto simp: r_cpf_def r_rg_def r_tel_def filtrar_distinct filtrar_set)
  have 4: "r_end ?r = r_end pii"
    unfolding r_end_def[of ?r] get_resolver
    by (rule filtrar_fixed)
       (auto simp: r_cpf_def r_rg_def r_tel_def r_end_def filtrar_distinct filtrar_set)
  have "resolver_conflitos ?r =
          ?r(''cpf'' \<mapsto> r_cpf pii, ''rg'' \<mapsto> r_rg pii, ''telefone'' \<mapsto> r_tel pii,
             ''endereco'' \<mapsto> r_end pii)"
    by (simp only: resolver_conflitos_eq[of ?r] 1 2 3 4)
  also have "\<dots> = ?r"
    by (rule ext) (simp add: resolver_conflitos_eq[of pii])
  finally show ?thesis .
qed

section \<open>Properties of the classifier\<close>

lemma any_campo_total:
  "set ks \<subseteq> dom pii \<Longrightarrow> any_campo ks pii = Inr (\<exists>k \<in> set ks. get_campo pii k \<noteq> [])"
  by (induction ks) (auto simp: get_campo_def)

lemma verdicts_differ: "NAO_PUBLICO \<noteq> PUBLICO"
  by (simp add: NAO_PUBLICO_def PUBLICO_def)


lemma any_campo_Inr: "set ks \<subseteq> dom pii \<Longrightarrow> \<exists>b. any_campo ks pii = Inr b"
  by (simp add: any_campo_total)

text \<open>
  Claim C1. On a mapping that binds the six fields (as the mappings of the pipeline do),
  and whatever the order in which Python walks \<open>PII_FORTE\<close>, the classifier returns the
  non-public verdict exactly when one of the six lists is not empty, and the public
  verdict exactly when all six are empty.
\<close>

theorem classificar_pedido_nonempty_iff:
  assumes "set ordem = PII_FORTE" and "PII_FORTE \<subseteq> dom pii"
  shows "(classificar_pedido ordem pii = Inr NAO_PUBLICO \<longleftrightarrow>
            (\<exists>k \<in> PII_FORTE. get_campo pii k \<noteq> [])) \<and>
         (classificar_pedido ordem pii = Inr PUBLICO \<longleftrightarrow>
            (\<forall>k \<in> PII_FORTE. get_campo pii k = []))"
  using assms verdicts_differ by (auto simp: classificar_pedido_def any_campo_total)

theorem classificar_pedido_nonempty_iff_witness:
  "set [''cpf'', ''rg'', ''endereco'', ''email'', ''telefone'', ''nome''] = PII_FORTE \<and>
   PII_FORTE \<subseteq> dom [''cpf'' \<mapsto> [], ''rg'' \<mapsto> [], ''endereco'' \<mapsto> [],
                    ''email'' \<mapsto> [''a@b.co''], ''telefone'' \<mapsto> [], ''nome'' \<mapsto> []] \<and>
   classificar_pedido [''cpf'', ''rg'', ''endereco'', ''email'', ''telefone'', ''nome'']
     [''cpf'' \<mapsto> [], ''rg'' \<mapsto> [], ''endereco'' \<mapsto> [], ''email'' \<mapsto> [''a@b.co''],
      ''telefone'' \<mapsto> [], ''nome'' \<mapsto> []] = Inr NAO_PUBLICO"
proof -
  let ?o = "[''cpf'', ''rg'', ''endereco'', ''email'', ''telefone'', ''nome'']"
  let ?p = "[''cpf'' \<mapsto> [], ''rg'' \<mapsto> [], ''endereco'' \<mapsto> [], ''email'' \<mapsto> [''a@b.co''],
            ''telefone'' \<mapsto> [], ''nome'' \<mapsto> []] :: pii"
  have h1: "set ?o = PII_FORTE" by (auto simp: PII_FORTE_def)
  have h2: "PII_FORTE \<subseteq> dom ?p" by (simp add: PII_FORTE_def)
  have h3: "\<exists>k \<in> PII_FORTE. get_campo ?p k \<noteq> []"
    by (rule bexI[of _ "''email''"]) (simp_all add: PII_FORTE_def get_campo_def)
  from classificar_pedido_nonempty_iff[OF h1 h2] h1 h2 h3 show ?thesis by blast
qed

section \<open>Properties of the string functions\<close>

lemma split_from_nonempty: "t \<in> set (split_from w cs) \<Longrightarrow> t \<noteq> []"
  by (induction cs arbitrary: w) (auto split: if_splits)

lemma py_split_nonempty: "t \<in> set (py_split s) \<Longrightarrow> t \<noteq> []"
  unfolding py_split_def by (rule split_from_nonempty)

lemma split_from_nospace_aux:
  "t \<in> set (split_from w cs) \<Longrightarrow> c \<in> set t \<Longrightarrow> \<forall>d \<in> set w. \<not> is_space d \<Longrightarrow> \<not> is_space c"
proof (induction cs arbitrary: w)
  case Nil
  then show ?case by (auto split: if_splits)
next
  case (Cons a cs)
  show ?case
  proof (cases "is_space a")
    case True
    with Cons.prems have "t = w \<or> t \<in> set (split_from [] cs)"
      by (auto split: if_splits)
    then show ?thesis
      using Cons.prems Cons.IH[of "[]"] by auto
  next
    case False
    with Cons.prems have "t \<in> set (split_from (w @ [a]) cs)" by simp
    then show ?thesis
      using Cons.prems False by (intro Cons.IH[of "w @ [a]"]) auto
  qed
qed

lemma py_split_nospace: "t \<in> set (py_split s) \<Longrightarrow> \<forall>c \<in> set t. \<not> is_space c"
  unfolding py_split_def using split_from_nospace_aux[of t "[]" s] by simp

lemma split_from_append:
  "\<forall>c \<in> set x. \<not> is_space c \<Longrightarrow> split_from w (x @ cs) = split_from (w @ x) cs"
  by (induction x arbitrary: w) auto

lemma space_is_space: "is_space CHR '' ''"
  by (simp add: is_space_def in_range_def cp_def)

lemma split_join_from:
  "\<forall>t \<in> set (x # ts). t \<noteq> [] \<and> (\<forall>c \<in> set t. \<not> is_space c) \<Longrightarrow>
   split_from [] (py_join '' '' (x # ts)) = x # ts"
proof (induction ts arbitrary: x)
  case Nil
  then show ?case using split_from_append[of x "[]" "[]"] by simp
next
  case (Cons y ts)
  have "split_from [] (x @ '' '' @ py_join '' '' (y # ts)) =
        split_from x ('' '' @ py_join '' '' (y # ts))"
    using Cons.prems split_from_append[of x "[]"] by simp
  also have "\<dots> = x # split_from [] (py_join '' '' (y # ts))"
    using Cons.prems by (simp add: space_is_space)
  also have "split_from [] (py_join '' '' (y # ts)) = y # ts"
    using Cons.prems by (intro Cons.IH) simp
  finally show ?case by simp
qed

text \<open>Splitting what was joined with single spaces gives the tokens back.\<close>

lemma split_join:
  assumes "\<forall>t \<in> set ts. t \<noteq> [] \<and> (\<forall>c \<in> set t. \<not> is_space c)"
  shows "py_split (py_join '' '' ts) = ts"
proof (cases ts)
  case Nil
  then show ?thesis by (simp add: py_split_def)
next
  case (Cons x xs)
  with assms show ?thesis
    using split_join_from[of x xs] by (simp add: py_split_def del: py_join.simps)
qed

section \<open>Properties of name cleaning and validation\<close>

text \<open>
  Claim C9, as stated, fails: the cleaning step does not stop at the ends of the span. In
  the span \<open>Maria Dr. Silva\<close> the title is the middle token, and it is removed.
\<close>

theorem limpar_titulos_interior_counterexample:
  "py_split ''Maria Dr. Silva'' = [''Maria'', ''Dr.'', ''Silva''] \<and>
   py_lower ''Dr.'' \<in> TITULOS \<and>
   limpar_titulos ''Maria Dr. Silva'' = ''Maria Silva'' \<and>
   py_split (limpar_titulos ''Maria Dr. Silva'') = [''Maria'', ''Silva'']"
  by code_simp

text \<open>
  Claim C9, amended. The cleaning step removes every token whose lower-case form is in
  the titles vocabulary, wherever it stands in the span (first, last or in between); the
  tokens of the result are the other tokens, in their order, joined by single spaces.
\<close>

theorem limpar_titulos_removes_every_title:
  "py_split (limpar_titulos nome) = filter (\<lambda>t. py_lower t \<notin> TITULOS) (py_split nome) \<and>
   limpar_titulos nome = py_join '' '' (py_split (limpar_titulos nome))"
proof -
  have "py_split (limpar_titulos nome) = filter (\<lambda>t. py_lower t \<notin> TITULOS) (py_split nome)"
    unfolding limpar_titulos_def
    by (rule split_join) (auto dest: py_split_nonempty py_split_nospace)
  then show ?thesis by (simp add: limpar_titulos_def)
qed

lemma tokens_validos_eq:
  "\<forall>t \<in> set toks. t \<noteq> [] \<Longrightarrow> tokens_validos toks = Inr (\<forall>tok \<in> set toks. token_regra tok)"
  by (induction toks) (auto simp: token_regra_def Let_def split: list.splits)

lemma nome_valido_eq: "nome_valido nome = Inr (nome_regra nome)"
proof -
  have "tokens_validos (py_split nome) = Inr (\<forall>tok \<in> set (py_split nome). token_regra tok)"
    by (rule tokens_validos_eq) (auto dest: py_split_nonempty)
  then show ?thesis
    by (auto simp: nome_valido_def nome_regra_def Let_def)
qed

text \<open>
  Claim C8. \<open>nome_valido\<close> raises nothing and accepts a name exactly when the structural
  rule holds: past the checks on the token count, the first token and first against
  last, every token is a connector (then neither check applies to it) or is not a
  forbidden word and begins with an upper-case letter; one token that is neither rejects
  the whole name.
\<close>

theorem nome_valido_token_rule:
  "nome_valido nome = Inr (nome_regra nome) \<and>
   ((\<exists>tok \<in> set (py_split nome). py_lower tok \<notin> PREPOSICOES_NOME \<and>
        (py_lower tok \<in> PALAVRAS_PROIBIDAS \<or> \<not> ch_isupper (hd tok)))
    \<longrightarrow> nome_valido nome = Inr False)"
proof -
  have "\<not> nome_regra nome"
    if "tok \<in> set (py_split nome)" "py_lower tok \<notin> PREPOSICOES_NOME"
       "py_lower tok \<in> PALAVRAS_PROIBIDAS \<or> \<not> ch_isupper (hd tok)" for tok
  proof -
    from that have "\<not> token_regra tok"
      by (auto simp: token_regra_def split: list.splits)
    with that(1) show ?thesis by (auto simp: nome_regra_def Let_def)
  qed
  then show ?thesis by (auto simp: nome_valido_eq)
qed

theorem nome_valido_token_rule_witness:
  "nome_valido ''Maria da Silva'' = Inr True \<and>
   ''total'' \<in> set (py_split ''Maria total Silva'') \<and>
   nome_valido ''Maria total Silva'' = Inr False"
proof -
  have a: "nome_regra ''Maria da Silva''" by code_simp
  have b: "\<exists>tok \<in> set (py_split ''Maria total Silva''). py_lower tok \<notin> PREPOSICOES_NOME \<and>
        (py_lower tok \<in> PALAVRAS_PROIBIDAS \<or> \<not> ch_isupper (hd tok))" by code_simp
  have c: "''total'' \<in> set (py_split ''Maria total Silva'')" by code_simp
  from nome_valido_token_rule[of "''Maria da Silva''"] a
  have d: "nome_valido ''Maria da Silva'' = Inr True" by simp
  from nome_valido_token_rule[of "''Maria total Silva''"] b
  have e: "nome_valido ''Maria total Silva'' = Inr False" by blast
  from c d e show ?thesis by simp
qed

section \<open>Properties of the validators\<close>

lemma so_digitos_decimal: "list_all is_decimal (so_digitos s)"
  by (simp add: so_digitos_def list_all_iff)

lemma py_int_two:
  "is_decimal a \<Longrightarrow> is_decimal b \<Longrightarrow> py_int [a, b] = Inr (10 * digit_val a + digit_val b)"
  by (simp add: py_int_def)

lemma telefone_valido_eq: "telefone_valido tel = Inr (telefone_regra tel)"
proof (cases "length (so_digitos tel) = 10 \<or> length (so_digitos tel) = 11")
  case False
  then show ?thesis by (simp add: telefone_valido_def telefone_regra_def Let_def)
next
  case True
  then obtain a b rest where ds: "so_digitos tel = a # b # rest"
    by (cases "so_digitos tel"; cases "tl (so_digitos tel)") auto
  with so_digitos_decimal[of tel] have "is_decimal a" "is_decimal b" by simp_all
  then have "py_int (take 2 (so_digitos tel)) = Inr (10 * digit_val a + digit_val b)"
    by (simp add: ds py_int_two)
  with True show ?thesis
    by (auto simp: telefone_valido_def telefone_regra_def Let_def ds)
qed

text \<open>
  Claim C7. The phone validator raises nothing and accepts a candidate exactly when,
  with the characters that are not digits removed, 10 or 11 digits remain and the number
  formed by the first two lies between 11 and 99; so a candidate whose digits begin with
  05 is rejected.
\<close>

theorem telefone_valido_rule:
  "telefone_valido tel = Inr (telefone_regra tel) \<and>
   (take 2 (so_digitos tel) = ''05'' \<longrightarrow> telefone_valido tel = Inr False)"
proof -
  have "\<not> telefone_regra tel" if "take 2 (so_digitos tel) = ''05''"
  proof -
    from that obtain rest where "so_digitos tel = CHR ''0'' # CHR ''5'' # rest"
      by (cases "so_digitos tel"; cases "tl (so_digitos tel)") auto
    then show ?thesis
      by (simp add: telefone_regra_def Let_def digit_val_def cp_def)
  qed
  then show ?thesis by (auto simp: telefone_valido_eq)
qed

text \<open>
  The pattern finds \<open>05) 1234-5678\<close> in \<open>(05) 1234-5678\<close>; the validator rejects it, and
  accepts the same number with the area code 61.
\<close>

theorem telefone_valido_rule_witness:
  "findall TELEFONE ''(05) 1234-5678'' = [''05) 1234-5678''] \<and>
   take 2 (so_digitos ''05) 1234-5678'') = ''05'' \<and>
   telefone_valido ''05) 1234-5678'' = Inr False \<and>
   telefone_valido ''61) 1234-5678'' = Inr True"
proof -
  have a: "findall TELEFONE ''(05) 1234-5678'' = [''05) 1234-5678'']" by code_simp
  have b: "take 2 (so_digitos ''05) 1234-5678'') = ''05''" by code_simp
  have c: "telefone_regra ''61) 1234-5678''" by code_simp
  from telefone_valido_rule[of "''05) 1234-5678''"] b
  have d: "telefone_valido ''05) 1234-5678'' = Inr False" by blast
  from telefone_valido_rule[of "''61) 1234-5678''"] c
  have e: "telefone_valido ''61) 1234-5678'' = Inr True" by simp
  from a b d e show ?thesis by simp
qed

section \<open>Properties of the matcher\<close>

lemma rest_advance: "rest (advance j cur) = drop j (rest cur)"
  by (induction j cur rule: advance.induct) simp_all

lemma takeWhile_take:
  "j \<le> length (takeWhile P xs) \<Longrightarrow> \<forall>c \<in> set (take j xs). P c"
proof (induction xs arbitrary: j)
  case Nil
  then show ?case by simp
next
  case (Cons x xs)
  then show ?case by (cases j) (auto split: if_splits)
qed

lemma one_char_suffix:
  "cur' \<in> set (one_char cls cur) \<Longrightarrow> \<exists>c. rest cur = c # rest cur' \<and> cls c"
  by (cases cur) (auto simp: one_char_def split: list.splits if_splits)

text \<open>
  A match consumes a prefix of the text at the cursor, made of characters of the
  pattern's alphabet.
\<close>

lemma rmatch_suffix:
  "cur' \<in> set (rmatch r cur) \<Longrightarrow> \<exists>w. rest cur = w @ rest cur' \<and> (\<forall>c \<in> set w. alphabet r c)"
proof (induction r arbitrary: cur cur')
  case (Rep cls m n)
  then obtain j where j: "cur' = advance j cur" "j \<le> length (takeWhile cls (rest cur))"
    by (auto simp: Let_def split: option.splits)
  have "rest cur = take j (rest cur) @ rest cur'"
    by (simp add: j rest_advance)
  moreover have "\<forall>c \<in> set (take j (rest cur)). cls c"
    using j(2) by (rule takeWhile_take)
  ultimately show ?case by (intro exI[of _ "take j (rest cur)"]) simp
next
  case (Seq r1 r2)
  then obtain mid where "mid \<in> set (rmatch r1 cur)" "cur' \<in> set (rmatch r2 mid)" by auto
  with Seq.IH obtain w1 w2 where
    "rest cur = w1 @ rest mid" "\<forall>c \<in> set w1. alphabet r1 c"
    "rest mid = w2 @ rest cur'" "\<forall>c \<in> set w2. alphabet r2 c" by blast
  then show ?case by (intro exI[of _ "w1 @ w2"]) auto
next
  case (Alt r1 r2)
  then show ?case by fastforce
next
  case (Opt r)
  then show ?case by fastforce
next
  case (Grp r)
  then show ?case by fastforce
qed (auto dest!: one_char_suffix split: if_splits)

lemma consumed_append: "rest cur = w @ rest cur' \<Longrightarrow> consumed cur cur' = w"
  by (simp add: consumed_def)

text \<open>
  Every match the scan reports is the first result of the matcher at some position of the
  text.
\<close>

lemma scan_found:
  "m \<in> set (scan r skip pos p s) \<Longrightarrow>
   \<exists>pre suf q cur' more. s = pre @ suf \<and> start m = pos + length pre \<and>
      rmatch r (Cursor q suf None) = cur' # more \<and>
      whole m = consumed (Cursor q suf None) cur' \<and> grp1 m = group1 cur'"
proof (induction s arbitrary: skip pos p)
  case Nil
  then obtain cur' more where "rmatch r (Cursor p [] None) = cur' # more"
      "m = Found pos [] (group1 cur')"
    by (cases "rmatch r (Cursor p [] None)") (auto split: if_splits)
  then show ?case
    by (intro exI[of _ "[]"] exI[of _ p] exI[of _ cur'] exI[of _ more]) (simp add: consumed_def)
next
  case (Cons c cs)
  consider (here) cur' more where "rmatch r (Cursor p (c # cs) None) = cur' # more"
      "m = Found pos (consumed (Cursor p (c # cs) None) cur') (group1 cur')"
    | (later) skip' where "m \<in> set (scan r skip' (Suc pos) (Some c) cs)"
    using Cons.prems by (auto simp: Let_def split: if_splits list.splits)
  then show ?case
  proof cases
    case here
    then show ?thesis
      by (intro exI[of _ "[]"] exI[of _ "c # cs"] exI[of _ p] exI[of _ cur'] exI[of _ more]) simp
  next
    case later
    from Cons.IH[OF later] obtain pre suf q cur' more where
      "cs = pre @ suf" "start m = Suc pos + length pre"
      "rmatch r (Cursor q suf None) = cur' # more"
      "whole m = consumed (Cursor q suf None) cur'" "grp1 m = group1 cur'" by blast
    then show ?thesis
      by (intro exI[of _ "c # pre"] exI[of _ suf] exI[of _ q] exI[of _ cur'] exI[of _ more]) simp
  qed
qed

lemma finditer_found:
  assumes "m \<in> set (finditer r text)"
  shows "\<exists>q cur'. start m \<le> length text \<and>
           cur' \<in> set (rmatch r (Cursor q (drop (start m) text) None)) \<and>
           whole m = consumed (Cursor q (drop (start m) text) None) cur' \<and>
           grp1 m = group1 cur'"
proof -
  from scan_found[OF assms[unfolded finditer_def]] obtain pre suf q cur' more where
    h: "text = pre @ suf" "start m = length pre" "rmatch r (Cursor q suf None) = cur' # more"
      "whole m = consumed (Cursor q suf None) cur'" "grp1 m = group1 cur'" by auto
  then have "drop (start m) text = suf" by simp
  with h show ?thesis by (intro exI[of _ q] exI[of _ cur']) simp
qed

lemma finditer_whole:
  assumes "m \<in> set (finditer r text)"
  shows "start m \<le> length text \<and> (\<exists>suf. drop (start m) text = whole m @ suf) \<and>
         (\<forall>c \<in> set (whole m). alphabet r c)"
proof -
  from finditer_found[OF assms] obtain q cur' where
    h: "start m \<le> length text" "cur' \<in> set (rmatch r (Cursor q (drop (start m) text) None))"
       "whole m = consumed (Cursor q (drop (start m) text) None) cur'" by blast
  from rmatch_suffix[OF h(2)] obtain w where
    w: "drop (start m) text = w @ rest cur'" "\<forall>c \<in> set w. alphabet r c" by auto
  then have "whole m = w" using h(3) by (simp add: consumed_def)
  with h(1) w show ?thesis by auto
qed

lemma compile_plain_match:
  "compile_plain rg = Inr r \<Longrightarrow> cur' \<in> set (rmatch r cur) \<Longrightarrow>
   \<exists>w. rest cur = w @ rest cur' \<and> dot_match rg w"
proof (induction rg arbitrary: r cur cur')
  case Nil
  then show ?case by (simp add: dot_match_def)
next
  case (Cons p ps)
  from Cons.prems(1) obtain r' where
    r': "compile_plain ps = Inr r'" "r = Seq (if p = CHR ''.'' then Dot else Chr p) r'"
    by (auto split: if_splits sum.splits)
  with Cons.prems(2) obtain mid where
    mid: "mid \<in> set (rmatch (if p = CHR ''.'' then Dot else Chr p) cur)" "cur' \<in> set (rmatch r' mid)"
    by auto
  from mid(1) obtain c where c: "rest cur = c # rest mid" "if p = CHR ''.'' then c \<noteq> CHR 0x0A else c = p"
    by (auto dest!: one_char_suffix split: if_splits)
  from Cons.IH[OF r'(1) mid(2)] obtain w where "rest mid = w @ rest cur'" "dot_match ps w" by blast
  with c show ?case
    by (intro exI[of _ "c # w"]) (simp add: dot_match_def)
qed

lemma compile_plain_ok:
  "\<forall>c \<in> set rg. c \<notin> set (CHR 0x5C # ''^$*+?{}[]|()'') \<Longrightarrow> \<exists>r. compile_plain rg = Inr r"
proof (induction rg)
  case Nil
  then show ?case by simp
next
  case (Cons c cs)
  then obtain r where "compile_plain cs = Inr r" by auto
  moreover have "c \<notin> set (CHR 0x5C # ''^$*+?{}[]|()'')" using Cons.prems by simp
  ultimately show ?case by (simp del: set_simps)
qed

lemma alphabet_seq: "alphabet (seq rs) c \<longleftrightarrow> (\<exists>r \<in> set rs. alphabet r c)"
  by (induction rs) (auto simp: seq_def)

lemma has_group_seq: "has_group (seq rs) \<longleftrightarrow> (\<exists>r \<in> set rs. has_group r)"
  by (induction rs) (auto simp: seq_def)

text \<open>
  No pattern of the program matches the empty string, and neither does a candidate
  compiled as a pattern, so the scan never meets an empty match.
\<close>

lemma length_rest_advance: "length (rest (advance j cur)) = length (rest cur) - j"
  by (simp add: rest_advance)

lemma rmatch_min_len:
  "cur' \<in> set (rmatch r cur) \<Longrightarrow> length (rest cur') + min_len r \<le> length (rest cur)"
proof (induction r arbitrary: cur cur')
  case (Rep cls m n)
  then obtain j where j: "cur' = advance j cur" "m \<le> j" "j \<le> length (takeWhile cls (rest cur))"
    by (auto simp: Let_def split: option.splits)
  have "length (takeWhile cls (rest cur)) \<le> length (rest cur)"
    by (rule length_takeWhile_le)
  with j show ?case by (simp add: length_rest_advance)
next
  case (Seq r1 r2)
  then obtain mid where "mid \<in> set (rmatch r1 cur)" "cur' \<in> set (rmatch r2 mid)" by auto
  with Seq.IH[of mid cur] Seq.IH(2)[of cur' mid] show ?case by simp
next
  case (Alt r1 r2)
  then show ?case by fastforce
next
  case (Opt r)
  then show ?case by fastforce
next
  case (Grp r)
  then show ?case by fastforce
qed (auto dest!: one_char_suffix split: if_splits)

lemma finditer_nonempty:
  assumes "0 < min_len r" "m \<in> set (finditer r text)"
  shows "whole m \<noteq> []"
proof -
  from finditer_found[OF assms(2)] obtain q cur' where
    h: "cur' \<in> set (rmatch r (Cursor q (drop (start m) text) None))"
       "whole m = consumed (Cursor q (drop (start m) text) None) cur'" by blast
  from rmatch_min_len[OF h(1)] assms(1)
  have "length (rest cur') < length (drop (start m) text)" by simp
  with h(2) show ?thesis by (auto simp: consumed_def)
qed

lemma min_len_seq: "min_len (seq rs) = sum_list (map min_len rs)"
  by (induction rs) (simp_all add: seq_def)

lemma patterns_consume:
  "min_len CPF = 10" "min_len RG = 8" "min_len EMAIL = 6" "min_len TELEFONE = 8"
  "min_len LOGRADOURO = 6" "min_len QUADRA_LOTE = 3"
  by (simp_all add: CPF_def RG_def EMAIL_def TELEFONE_def LOGRADOURO_def QUADRA_LOTE_def
        min_len_seq digits_def lit_def litI_def)

lemma min_len_compile_plain: "compile_plain rg = Inr r \<Longrightarrow> min_len r = length rg"
  by (induction rg arbitrary: r) (auto split: if_splits sum.splits)

text \<open>The text of the capture group is made of characters of the group's alphabet.\<close>

lemma group1_advance: "group1 (advance j cur) = group1 cur"
  by (induction j cur rule: advance.induct) simp_all

lemma one_char_group: "cur' \<in> set (one_char cls cur) \<Longrightarrow> group1 cur' = group1 cur"
  by (cases cur) (auto simp: one_char_def group1_advance split: list.splits if_splits)

lemma rmatch_group:
  "cur' \<in> set (rmatch r cur) \<Longrightarrow>
   group1 cur' = group1 cur \<or> (\<exists>g. group1 cur' = Some g \<and> (\<forall>c \<in> set g. group_alphabet r c))"
proof (induction r arbitrary: cur cur')
  case (Rep cls m n)
  then show ?case by (auto simp: Let_def group1_advance)
next
  case (Seq r1 r2)
  then obtain mid where mid: "mid \<in> set (rmatch r1 cur)" "cur' \<in> set (rmatch r2 mid)" by auto
  from Seq.IH(1)[OF mid(1)] Seq.IH(2)[OF mid(2)] show ?case by auto
next
  case (Alt r1 r2)
  then show ?case by fastforce
next
  case (Opt r)
  then show ?case by fastforce
next
  case (Grp r)
  then obtain mid where mid: "mid \<in> set (rmatch r cur)"
      "group1 cur' = Some (consumed cur mid)" by auto
  from rmatch_suffix[OF mid(1)] obtain w where
    "rest cur = w @ rest mid" "\<forall>c \<in> set w. alphabet r c" by blast
  then have "\<forall>c \<in> set (consumed cur mid). alphabet r c" by (simp add: consumed_def)
  with mid(2) show ?case by simp
qed (auto dest: one_char_group split: if_splits)

lemma findall_group_alphabet:
  assumes "has_group r" "e \<in> set (findall r text)"
  shows "\<forall>c \<in> set e. group_alphabet r c"
proof -
  from assms obtain m where m: "m \<in> set (finditer r text)"
      "e = (case grp1 m of None \<Rightarrow> [] | Some g \<Rightarrow> g)"
    by (auto simp: findall_def)
  from finditer_found[OF m(1)] obtain q cur' where
    h: "cur' \<in> set (rmatch r (Cursor q (drop (start m) text) None))" "grp1 m = group1 cur'"
    by blast
  from rmatch_group[OF h(1)] h(2) m(2) show ?thesis by (auto split: option.splits)
qed

lemma group_alphabet_seq: "group_alphabet (seq rs) c \<longleftrightarrow> (\<exists>r \<in> set rs. group_alphabet r c)"
  by (induction rs) (auto simp: seq_def)

section \<open>Candidates of the RG pattern compile as patterns\<close>

lemma alphabet_RG:
  "alphabet RG c \<Longrightarrow> is_decimal c \<or> c \<in> set ''.-Xx''"
  unfolding RG_def alphabet_seq digits_def is_decimal_def by auto

lemma no_group_RG: "\<not> has_group RG"
  by (simp add: RG_def has_group_seq digits_def)

lemma is_decimal_plain: "is_decimal c \<Longrightarrow> c \<notin> set (CHR 0x5C # ''^$*+?{}[]|()'')"
  by (auto simp: is_decimal_def in_range_def cp_def)

lemma RG_char_plain:
  assumes "alphabet RG c"
  shows "c \<notin> set (CHR 0x5C # ''^$*+?{}[]|()'')"
proof -
  from alphabet_RG[OF assms] consider "is_decimal c" | "c \<in> set ''.-Xx''" by blast
  then show ?thesis
  proof cases
    case 1
    then show ?thesis by (rule is_decimal_plain)
  next
    case 2
    then show ?thesis by auto
  qed
qed

lemma RG_candidate_plain:
  assumes "rg \<in> set (extract_re RG text)"
  shows "\<exists>r. compile_plain rg = Inr r"
proof -
  from assms obtain m where "m \<in> set (finditer RG text)" "rg = whole m"
    by (auto simp: extract_re_def list_set_def findall_def no_group_RG)
  with finditer_whole[of m RG "text"] have "\<forall>c \<in> set rg. alphabet RG c" by simp
  then have "\<forall>c \<in> set rg. c \<notin> set (CHR 0x5C # ''^$*+?{}[]|()'')"
    using RG_char_plain by blast
  then show ?thesis by (rule compile_plain_ok)
qed

lemma finditer_plain_ocorre:
  assumes "compile_plain rg = Inr r" "m \<in> set (finditer r text)"
  shows "start m \<le> length text \<and> ocorre rg text (start m)"
proof -
  from finditer_found[OF assms(2)] obtain q cur' where
    h: "start m \<le> length text" "cur' \<in> set (rmatch r (Cursor q (drop (start m) text) None))"
    by blast
  from compile_plain_match[OF assms(1) h(2)] obtain w where
    w: "drop (start m) text = w @ rest cur'" "dot_match rg w" by auto
  from w(2) have len: "length w = length rg"
    by (simp add: dot_match_def list_all2_lengthD)
  from w(1) have "length w \<le> length (drop (start m) text)" by simp
  with len h(1) have 1: "start m + length rg \<le> length text" by simp
  from w(1) len have 2: "take (length rg) (drop (start m) text) = w" by simp
  from w(2) have "list_all2 (\<lambda>p c. p = CHR ''.'' \<or> c = p) rg w"
    unfolding dot_match_def by (rule list_all2_mono) (auto split: if_splits)
  with 1 2 h(1) show ?thesis by (simp add: ocorre_def)
qed

section \<open>The pipeline raises nothing\<close>

lemma filter_err_total:
  "\<forall>x \<in> set xs. \<exists>b. f x = Inr b \<Longrightarrow> filter_err f xs = Inr (filter (\<lambda>x. f x = Inr True) xs)"
  by (induction xs) auto

lemma rg_valido_total:
  assumes "rg \<in> set (extract_re RG text')"
  shows "\<exists>b. rg_valido rg text = Inr b"
proof -
  from RG_candidate_plain[OF assms] obtain r where "compile_plain rg = Inr r" by blast
  then show ?thesis by (auto simp: rg_valido_def Let_def)
qed

lemma extract_all_eq: "extract_all text = Inr (pii_extraido text)"
proof -
  have 1: "filter_err (\<lambda>r. rg_valido r text) (extract_re RG text) =
           Inr (filter (\<lambda>r. rg_valido r text = Inr True) (extract_re RG text))"
    by (rule filter_err_total) (blast intro: rg_valido_total)
  have 2: "filter_err telefone_valido (extract_re TELEFONE text) =
           Inr (filter telefone_regra (extract_re TELEFONE text))"
    using filter_err_total[of "extract_re TELEFONE text" telefone_valido]
    by (simp add: telefone_valido_eq)
  show ?thesis
    by (simp add: extract_all_def Let_def 1 2 pii_extraido_def)
qed

lemma nomes_loop_total: "\<exists>ns. nomes_loop ents nomes = Inr ns"
proof (induction ents arbitrary: nomes)
  case Nil
  then show ?case by simp
next
  case (Cons e ents)
  obtain t l where e: "e = (t, l)" by (cases e)
  show ?case
    unfolding e nomes_loop.simps Let_def nome_valido_eq
    using Cons.IH by (simp del: nomes_loop.simps)
qed

lemma detect_pii_eq:
  "\<exists>nomes. detect_pii nlp text =
      Inr ((resolver_conflitos (pii_extraido (normalize_text text)))(''nome'' \<mapsto> nomes))"
proof -
  obtain ns where "extract_names nlp (normalize_text text) = Inr ns"
    unfolding extract_names_def using nomes_loop_total by blast
  then show ?thesis
    by (auto simp: detect_pii_def Let_def extract_all_eq)
qed

lemma dom_resolver: "dom (resolver_conflitos pii) = dom pii \<union> set CAMPOS_CONFLITO"
  by (auto simp: resolver_conflitos_eq CAMPOS_CONFLITO_def)

lemma dom_pii_extraido:
  "dom (pii_extraido text) = {''cpf'', ''rg'', ''email'', ''telefone'', ''endereco''}"
  by (auto simp: pii_extraido_def)

text \<open>
  Claim C10. For every input text and every recognizer, \<open>detect_pii\<close> returns a mapping
  (no exception is raised on the way) whose keys are exactly cpf, rg, email, telefone,
  endereco and nome, each bound to a list of strings; so the classifier finds every key
  of \<open>PII_FORTE\<close>, in whatever order it looks them up, and returns a verdict.
\<close>

theorem detect_pii_six_keys:
  "\<exists>m. detect_pii nlp text = Inr m \<and>
       dom m = {''cpf'', ''rg'', ''email'', ''telefone'', ''endereco'', ''nome''} \<and>
       (\<forall>ordem. set ordem = PII_FORTE \<longrightarrow> (\<exists>v. classificar_pedido ordem m = Inr v))"
proof -
  from detect_pii_eq obtain nomes where
    m: "detect_pii nlp text =
          Inr ((resolver_conflitos (pii_extraido (normalize_text text)))(''nome'' \<mapsto> nomes))"
    by blast
  let ?m = "(resolver_conflitos (pii_extraido (normalize_text text)))(''nome'' \<mapsto> nomes)"
  have d: "dom ?m = {''cpf'', ''rg'', ''email'', ''telefone'', ''endereco'', ''nome''}"
    by (auto simp: dom_resolver dom_pii_extraido CAMPOS_CONFLITO_def)
  have "\<exists>v. classificar_pedido ordem ?m = Inr v" if "set ordem = PII_FORTE" for ordem
  proof -
    from that d have "set ordem \<subseteq> dom ?m" by (auto simp: PII_FORTE_def)
    from any_campo_Inr[OF this] show ?thesis by (auto simp: classificar_pedido_def)
  qed
  with m d show ?thesis by blast
qed

theorem detect_pii_six_keys_witness:
  "set [''nome'', ''telefone'', ''email'', ''endereco'', ''rg'', ''cpf''] = PII_FORTE \<and>
   (\<exists>m. detect_pii sem_entidades ''RG 1.234.567-8'' = Inr m \<and>
        dom m = {''cpf'', ''rg'', ''email'', ''telefone'', ''endereco'', ''nome''} \<and>
        (\<exists>v. classificar_pedido [''nome'', ''telefone'', ''email'', ''endereco'', ''rg'', ''cpf''] m
               = Inr v))"
proof -
  have c: "set [''nome'', ''telefone'', ''email'', ''endereco'', ''rg'', ''cpf''] = PII_FORTE"
    unfolding PII_FORTE_def by auto
  from detect_pii_six_keys[of sem_entidades "''RG 1.234.567-8''"] obtain m where
    m: "detect_pii sem_entidades ''RG 1.234.567-8'' = Inr m \<and>
        dom m = {''cpf'', ''rg'', ''email'', ''telefone'', ''endereco'', ''nome''} \<and>
        (\<forall>ordem. set ordem = PII_FORTE \<longrightarrow> (\<exists>v. classificar_pedido ordem m = Inr v))" ..
  from m have m1: "detect_pii sem_entidades ''RG 1.234.567-8'' = Inr m" by (rule conjunct1)
  from m have m2: "dom m = {''cpf'', ''rg'', ''email'', ''telefone'', ''endereco'', ''nome''}"
    by (rule conjunct1[OF conjunct2])
  from m have m3: "\<forall>ordem. set ordem = PII_FORTE \<longrightarrow> (\<exists>v. classificar_pedido ordem m = Inr v)"
    by (rule conjunct2[OF conjunct2])
  from m3 have "set [''nome'', ''telefone'', ''email'', ''endereco'', ''rg'', ''cpf''] = PII_FORTE
      \<longrightarrow> (\<exists>v. classificar_pedido [''nome'', ''telefone'', ''email'', ''endereco'', ''rg'', ''cpf''] m = Inr v)"
    by (rule spec)
  from this c have e: "\<exists>v. classificar_pedido [''nome'', ''telefone'', ''email'', ''endereco'', ''rg'', ''cpf''] m = Inr v"
    by (rule mp)
  have "\<exists>m. detect_pii sem_entidades ''RG 1.234.567-8'' = Inr m \<and>
        dom m = {''cpf'', ''rg'', ''email'', ''telefone'', ''endereco'', ''nome''} \<and>
        (\<exists>v. classificar_pedido [''nome'', ''telefone'', ''email'', ''endereco'', ''rg'', ''cpf''] m
               = Inr v)"
    by (rule exI[of _ m]) (rule conjI[OF m1 conjI[OF m2 e]])
  with c show ?thesis by (rule conjI)
qed

section \<open>The national ID (CPF)\<close>














































section \<open>The lot/block pattern\<close>

text \<open>
  Whatever the text, a string that \<open>QUADRA_LOTE.findall\<close> returns is made of keyword
  letters and dots; it has no digit, and the address validator rejects it. So the
  addresses extracted are the ones of \<open>LOGRADOURO\<close> alone.
\<close>

lemma digit_not_upper: "ch_isdigit c \<Longrightarrow> ch_lower c = c"
  by (auto simp: ch_isdigit_def ch_lower_def ch_isupper_def in_range_def)

lemma keyword_chars:
  "group_alphabet QUADRA_LOTE c \<Longrightarrow>
   \<exists>a \<in> set ''Qd.QuadraLt.LoteBlocoBLCConjuntoCJ''. ch_lower c = ch_lower a"
  unfolding QUADRA_LOTE_def group_alphabet_seq
  by (simp add: litI_def alphabet_seq)

lemma keyword_chars_no_digit:
  "\<forall>a \<in> set ''Qd.QuadraLt.LoteBlocoBLCConjuntoCJ''. \<not> ch_isdigit (ch_lower a)"
  by (simp add: ch_isdigit_def ch_lower_def ch_isupper_def in_range_def cp_def)

lemma quadra_lote_no_digit:
  assumes "group_alphabet QUADRA_LOTE c"
  shows "\<not> ch_isdigit c"
proof
  assume d: "ch_isdigit c"
  from keyword_chars[OF assms] obtain a where
    a: "a \<in> set ''Qd.QuadraLt.LoteBlocoBLCConjuntoCJ''" "ch_lower c = ch_lower a" ..
  from digit_not_upper[OF d] a(2) have "ch_lower a = c" by simp
  with d have "ch_isdigit (ch_lower a)" by simp
  moreover from keyword_chars_no_digit a(1) have "\<not> ch_isdigit (ch_lower a)" by (rule bspec)
  ultimately show False by (rule notE[rotated])
qed

lemma has_group_QUADRA_LOTE: "has_group QUADRA_LOTE"
  by (simp add: QUADRA_LOTE_def has_group_seq)

lemma quadra_lote_never_valid:
  assumes "e \<in> set (findall QUADRA_LOTE text)"
  shows "\<not> endereco_valido e"
proof -
  from findall_group_alphabet[OF has_group_QUADRA_LOTE assms]
  have "\<forall>c \<in> set e. \<not> ch_isdigit c" using quadra_lote_no_digit by blast
  then show ?thesis by (simp add: endereco_valido_def Let_def list_ex_iff)
qed

lemma filter_remdups_append:
  assumes "\<forall>y \<in> set ys. \<not> P y"
  shows "filter P (remdups (xs @ ys)) = filter P (remdups xs)"
  using assms
proof (induction xs)
  case Nil
  then show ?case by (induction ys) auto
next
  case (Cons x xs)
  then show ?case by auto
qed

lemma quadra_lote_contributes_nothing:
  "extract_endereco text = filter endereco_valido (list_set (findall LOGRADOURO text))"
  unfolding extract_endereco_def Let_def list_set_def
  by (rule filter_remdups_append) (blast dest: quadra_lote_never_valid)

text \<open>
  Claim C5 does not hold of the code. In \<open>Quadra 15\<close> the pattern matches the whole
  fragment, which would pass the address validator, but \<open>findall\<close> returns the text of
  the capturing group, the keyword \<open>Quadra\<close> alone; it has no digit, the validator
  rejects it, and the endereco list is empty.
\<close>

theorem quadra_lote_fragment_lost:
  "map whole (finditer QUADRA_LOTE ''Quadra 15'') = [''Quadra 15''] \<and>
   endereco_valido ''Quadra 15'' \<and>
   findall QUADRA_LOTE ''Quadra 15'' = [''Quadra''] \<and>
   \<not> endereco_valido ''Quadra'' \<and>
   extract_endereco ''Quadra 15'' = [] \<and>
   lista (detect_pii sem_entidades ''Quadra 15'') ''endereco'' = Inr []"
  by code_simp

section \<open>The identity document (RG)\<close>

text \<open>
  What the validator does on a candidate of the pattern: it raises nothing, and it accepts
  only if 7 to 9 digits remain and some place of the text where the characters of the
  candidate other than its dots stand has a keyword in the 15 characters before it.
\<close>

lemma rg_valido_candidate_only_if:
  assumes "rg \<in> set (extract_re RG text')"
  shows "\<exists>b. rg_valido rg text = Inr b \<and>
           (b \<longrightarrow> 7 \<le> length (so_digitos rg) \<and> length (so_digitos rg) \<le> 9 \<and>
              (\<exists>st \<le> length text. ocorre rg text st \<and> tem_palavra_rg (janela text st)))"
proof -
  from rg_valido_total[OF assms] obtain b where b: "rg_valido rg text = Inr b" by blast
  have "7 \<le> length (so_digitos rg) \<and> length (so_digitos rg) \<le> 9 \<and>
      (\<exists>st \<le> length text. ocorre rg text st \<and> tem_palavra_rg (janela text st))" if "b"
  proof -
    from that b have a: "rg_valido rg text = Inr True" by simp
    then have d: "7 \<le> length (so_digitos rg) \<and> length (so_digitos rg) \<le> 9"
      by (auto simp: rg_valido_def Let_def split: if_splits)
    with a obtain r where r: "compile_plain rg = Inr r"
      "list_ex (\<lambda>m. tem_palavra_rg (janela text (start m))) (finditer r text)"
      by (auto simp: rg_valido_def Let_def split: sum.splits)
    then obtain m where m: "m \<in> set (finditer r text)" "tem_palavra_rg (janela text (start m))"
      by (auto simp: list_ex_iff)
    from finditer_plain_ocorre[OF r(1) m(1)] m(2) d show ?thesis by blast
  qed
  with b show ?thesis by blast
qed

text \<open>
  The digits of a candidate written without dots are found inside a longer number that
  follows \<open>RG\<close>: the pattern matches \<open>12345678\<close> only at index 33, with no keyword in the
  15 characters before it, and the candidate is accepted through the place at index 3.
\<close>

lemma rg_valido_digits_inside_longer_number:
  "finditer RG ''RG 123456789012 xxxxxxxxxxxxxxxx 12345678'' = [Found 33 ''12345678'' None] \<and>
   janela ''RG 123456789012 xxxxxxxxxxxxxxxx 12345678'' 33 = ''xxxxxxxxxxxxxx '' \<and>
   \<not> tem_palavra_rg (janela ''RG 123456789012 xxxxxxxxxxxxxxxx 12345678'' 33) \<and>
   length (so_digitos ''12345678'') = 8 \<and>
   rg_valido ''12345678'' ''RG 123456789012 xxxxxxxxxxxxxxxx 12345678'' = Inr True \<and>
   lista (detect_pii sem_entidades ''RG 123456789012 xxxxxxxxxxxxxxxx 12345678'') ''rg'' =
     Inr [''12345678'']"
  by code_simp

text \<open>
  Claim C6 does not hold of the code. In the text below the pattern matches the candidate
  \<open>1.234.567-8\<close> only at index 45, and the 15 characters before it hold no keyword; the
  claim says the validator rejects it. The validator looks for the candidate again with
  \<open>re.finditer(rg, text)\<close>, where the candidate is the pattern and its dots stand for any
  character: it finds \<open>1x234y567-8\<close> at index 3, right after \<open>RG\<close>, accepts the candidate,
  and the rg list of the mapping holds it.
\<close>

theorem rg_valido_accepts_without_context:
  "finditer RG ''RG 1x234y567-8 e muito depois, sem contexto: 1.234.567-8'' =
     [Found 45 ''1.234.567-8'' None] \<and>
   janela ''RG 1x234y567-8 e muito depois, sem contexto: 1.234.567-8'' 45 = '' sem contexto: '' \<and>
   \<not> tem_palavra_rg (janela ''RG 1x234y567-8 e muito depois, sem contexto: 1.234.567-8'' 45) \<and>
   length (so_digitos ''1.234.567-8'') = 8 \<and>
   rg_valido ''1.234.567-8'' ''RG 1x234y567-8 e muito depois, sem contexto: 1.234.567-8'' = Inr True \<and>
   lista (detect_pii sem_entidades ''RG 1x234y567-8 e muito depois, sem contexto: 1.234.567-8'') ''rg'' =
     Inr [''1.234.567-8'']"
  by code_simp

end
